theory Spec2Isabelle
  imports Main
begin

section \<open>The assessment backend (src/backend.js)\<close>

text \<open>
  The backend keeps one in-memory \<open>Map\<close> from session id to session record and serves
  three POST routes over it; a timer sweeps idle sessions. Each handler is modelled as a
  function from the request fields and the store to the response and the new store.

  Modelling decisions:
  \<^item> A JavaScript string is a \<open>string\<close>; a character stands for one code unit below 256.
  \<^item> A request field is given at the type the handler expects (\<open>sessionId\<close> and
    \<open>selectedAnswer\<close> strings, \<open>questionNumber\<close> an integer), or is \<open>None\<close>
    when the body has no such field (\<open>undefined\<close> or \<open>null\<close>).
  \<^item> A JavaScript number that holds an integer is an \<open>int\<close>. Addition and \<open>parseInt\<close>
    round to the nearest double as JavaScript does (exact up to \<open>2^53\<close>, ties to the even
    significand beyond), and \<open>parseInt\<close> overflows to \<open>Infinity\<close>.
  \<^item> \<open>Date.now()\<close> and \<open>uuidv4()\<close> are inputs of the handlers (milliseconds, and the
    fresh id).
  \<^item> The text generator is a function from the prompt and the token budget to the text of
    the first choice, or \<open>None\<close> when anything inside the handler's \<open>try\<close> block throws.
  \<^item> The \<open>Map\<close> is an association list in insertion order with distinct keys.
\<close>

subsection \<open>Strings\<close>

definition is_space :: "char \<Rightarrow> bool" where
  "is_space c \<longleftrightarrow>
     c \<in> {CHR 0x09, CHR 0x0A, CHR 0x0B, CHR 0x0C, CHR 0x0D, CHR 0x20, CHR 0xA0}"

text \<open>\<open>String.prototype.trim\<close>.\<close>

definition trim :: "string \<Rightarrow> string" where
  "trim s = rev (dropWhile is_space (rev (dropWhile is_space s)))"

text \<open>\<open>s.split('\n')\<close>: never empty, the empty string gives one empty line.\<close>

fun split_lines :: "string \<Rightarrow> string list" where
  "split_lines [] = [[]]"
| "split_lines (c # cs) =
     (if c = CHR 0x0A then [] # split_lines cs
      else (case split_lines cs of [] \<Rightarrow> [[c]] | l # ls \<Rightarrow> (c # l) # ls))"

text \<open>\<open>xs.join(sep)\<close> on an array of strings.\<close>

fun join :: "string \<Rightarrow> string list \<Rightarrow> string" where
  "join sep [] = []"
| "join sep [x] = x"
| "join sep (x # y # ys) = x @ sep @ join sep (y # ys)"

text \<open>The predicate of \<open>filter(line => line.trim() !== '')\<close>.\<close>

definition non_blank :: "string \<Rightarrow> bool" where
  "non_blank line \<longleftrightarrow> trim line \<noteq> []"

definition is_digit :: "char \<Rightarrow> bool" where
  "is_digit c \<longleftrightarrow> c \<in> set ''0123456789''"

text \<open>
  Canonicalisation of a character under the \<open>i\<close> flag (no \<open>u\<close> flag): against the
  ASCII patterns used here only the ASCII letters fold.
\<close>

definition to_upper :: "char \<Rightarrow> char" where
  "to_upper c =
     (case map_of (zip ''abcdefghijklmnopqrstuvwxyz'' ''ABCDEFGHIJKLMNOPQRSTUVWXYZ'') c of
        None \<Rightarrow> c | Some u \<Rightarrow> u)"

text \<open>The pattern (first argument) matches case-insensitively at the start of the text.\<close>

fun ci_prefix :: "string \<Rightarrow> string \<Rightarrow> bool" where
  "ci_prefix [] s = True"
| "ci_prefix (p # ps) [] = False"
| "ci_prefix (p # ps) (c # cs) = (to_upper p = to_upper c \<and> ci_prefix ps cs)"

subsection \<open>Numbers\<close>

text \<open>
  A JavaScript number is a double. \<open>round_to_double m\<close> is the value of the double
  nearest to the natural number \<open>m\<close>: the 53 leading bits of \<open>m\<close>, rounded half to even
  on the bits dropped (\<open>bit_length m - 53\<close> of them, none when \<open>m\<close> has at most 53 bits).
  The value reaches \<open>2^1024\<close> exactly when the double is \<open>Infinity\<close>.
\<close>

fun bit_length :: "nat \<Rightarrow> nat" where
  "bit_length n = (if n = 0 then 0 else Suc (bit_length (n div 2)))"

declare bit_length.simps [simp del]

definition round_to_double :: "nat \<Rightarrow> nat" where
  "round_to_double m =
     (let e = bit_length m - 53; q = m div 2 ^ e; r = m mod 2 ^ e
      in if 2 * r > 2 ^ e \<or> (2 * r = 2 ^ e \<and> odd q) then (q + 1) * 2 ^ e else q * 2 ^ e)"

definition round_int :: "int \<Rightarrow> int" where
  "round_int i =
     (if i < 0 then - int (round_to_double (nat (- i))) else int (round_to_double (nat i)))"

text \<open>\<open>a + b\<close> on two numbers that hold integers (the sum stays finite here).\<close>

definition js_add :: "int \<Rightarrow> int \<Rightarrow> int" where
  "js_add a b = round_int (a + b)"

datatype number = Finite int | Infinity

text \<open>
  \<open>parseInt(ds, 10)\<close> on a string of decimal digits: the number the digits write, as a
  double. \<open>res.json\<close> prints \<open>Infinity\<close> as \<open>null\<close>.
\<close>

definition digit_val :: "char \<Rightarrow> nat" where
  "digit_val c = of_char c - 48"

definition digits_value :: "string \<Rightarrow> nat" where
  "digits_value ds = foldl (\<lambda>acc d. 10 * acc + digit_val d) 0 ds"

definition parseInt :: "string \<Rightarrow> number" where
  "parseInt ds =
     (let v = round_to_double (digits_value ds)
      in if v < 2 ^ 1024 then Finite (int v) else Infinity)"

text \<open>
  The decimal form of an integer, as a template literal prints a number below \<open>2^53\<close> in
  magnitude. (Beyond that JavaScript prints the shortest digits that read back as the
  same double, and an exponent from \<open>10^21\<close>; the properties below do not depend on the
  digits of such a number.)
\<close>

fun nat_digits :: "nat \<Rightarrow> string" where
  "nat_digits n =
     (if n < 10 then [''0123456789'' ! n]
      else nat_digits (n div 10) @ [''0123456789'' ! (n mod 10)])"

declare nat_digits.simps [simp del]

definition num_to_string :: "int \<Rightarrow> string" where
  "num_to_string n = (if n < 0 then CHR ''-'' # nat_digits (nat (- n)) else nat_digits (nat n))"

subsection \<open>Sessions and the store\<close>

record session =
  businessType :: "string option"
  answers :: "string list"
  lastActivity :: int

type_synonym store = "(string \<times> session) list"

definition sessions_get :: "store \<Rightarrow> string \<Rightarrow> session option" where
  "sessions_get st sessionId = map_of st sessionId"

text \<open>\<open>Map.prototype.set\<close>: an existing key keeps its place, a new key goes last.\<close>

fun sessions_set :: "string \<Rightarrow> session \<Rightarrow> store \<Rightarrow> store" where
  "sessions_set k v [] = [(k, v)]"
| "sessions_set k v ((k', v') # st) =
     (if k = k' then (k, v) # st else (k', v') # sessions_set k v st)"

definition sessions_delete :: "string \<Rightarrow> store \<Rightarrow> store" where
  "sessions_delete k st = filter (\<lambda>(k', v). k' \<noteq> k) st"

definition distinct_keys :: "store \<Rightarrow> bool" where
  "distinct_keys st \<longleftrightarrow> distinct (map fst st)"

subsection \<open>Session cleanup (the \<open>setInterval\<close> callback)\<close>

text \<open>
  \<open>sessions.forEach\<close> visits the entries in order; the callback deletes the entry it is
  visiting when it has been idle for more than thirty minutes.
\<close>

fun sweep_loop :: "int \<Rightarrow> (string \<times> session) list \<Rightarrow> store \<Rightarrow> store" where
  "sweep_loop now [] st = st"
| "sweep_loop now ((sessionId, session) # rest) st =
     (if now - lastActivity session > 30 * 60 * 1000
      then sweep_loop now rest (sessions_delete sessionId st)
      else sweep_loop now rest st)"

definition sweep :: "int \<Rightarrow> store \<Rightarrow> store" where
  "sweep now st = sweep_loop now st st"

subsection \<open>Parsing the generated question (\<open>/api/next-question\<close>)\<close>

text \<open>\<open>/[A-D]\. .*/.test(line)\<close>: the pattern is searched anywhere in the line, and
  \<open>.*\<close> also matches the empty string.\<close>

fun option_pattern :: "string \<Rightarrow> bool" where
  "option_pattern (a # b # c # rest) =
     ((a \<in> set ''ABCD'' \<and> b = CHR ''.'' \<and> c = CHR '' '') \<or> option_pattern (b # c # rest))"
| "option_pattern _ = False"

text \<open>
  The spec's wording of an option line, for comparison: the line is one letter A to D, a
  full stop, a space, and then any text.
\<close>

definition spec_option_line :: "string \<Rightarrow> bool" where
  "spec_option_line line =
     (case line of
        a # b # c # rest \<Rightarrow> a \<in> set ''ABCD'' \<and> b = CHR ''.'' \<and> c = CHR '' ''
      | _ \<Rightarrow> False)"

definition non_blank_lines :: "string \<Rightarrow> string list" where
  "non_blank_lines aiContent = filter non_blank (split_lines aiContent)"

text \<open>\<open>lines[0] || ""\<close>.\<close>

definition parse_question :: "string \<Rightarrow> string" where
  "parse_question aiContent =
     (case non_blank_lines aiContent of [] \<Rightarrow> [] | l # ls \<Rightarrow> l)"

text \<open>\<open>lines.slice(1, 5).filter(...)\<close>.\<close>

definition parse_options :: "string \<Rightarrow> string list" where
  "parse_options aiContent =
     filter option_pattern (take 4 (drop 1 (non_blank_lines aiContent)))"

subsection \<open>Parsing the generated report (\<open>/api/generate-report\<close>)\<close>

text \<open>\<open>aiContent.match(/Chaos score: (\d+)/i)\<close>: the first capture group of the leftmost
  match, \<open>None\<close> for \<open>null\<close>.\<close>

fun score_match :: "string \<Rightarrow> string option" where
  "score_match [] = None"
| "score_match (c # cs) =
     (if ci_prefix ''Chaos score: '' (c # cs) \<and> takeWhile is_digit (drop 13 (c # cs)) \<noteq> []
      then Some (takeWhile is_digit (drop 13 (c # cs)))
      else score_match cs)"

definition parse_score :: "string \<Rightarrow> number" where
  "parse_score aiContent =
     (case score_match aiContent of None \<Rightarrow> Finite 0 | Some ds \<Rightarrow> parseInt ds)"

text \<open>The lazy group \<open>([\s\S]*?)\<close> before \<open>(?:\nRecommendation|$)\<close>: the text up to the
  first line break followed by "Recommendation" in any case, or all of it.\<close>

fun until_recommendation :: "string \<Rightarrow> string" where
  "until_recommendation [] = []"
| "until_recommendation (c # cs) =
     (if ci_prefix ''\<newline>Recommendation'' (c # cs) then [] else c # until_recommendation cs)"

text \<open>\<open>/Top \d+ operational issues:\n([\s\S]*?)(?:\nRecommendation|$)/i\<close>.\<close>

fun issues_match :: "string \<Rightarrow> string option" where
  "issues_match [] = None"
| "issues_match (c # cs) =
     (let ds = takeWhile is_digit (drop 4 (c # cs));
          after = drop (4 + length ds) (c # cs)
      in if ci_prefix ''Top '' (c # cs) \<and> ds \<noteq> [] \<and>
            ci_prefix '' operational issues:\<newline>'' after
         then Some (until_recommendation (drop 21 after))
         else issues_match cs)"

text \<open>\<open>/Recommendations:\n([\s\S]*)/i\<close>.\<close>

fun recommendations_match :: "string \<Rightarrow> string option" where
  "recommendations_match [] = None"
| "recommendations_match (c # cs) =
     (if ci_prefix ''Recommendations:\<newline>'' (c # cs) then Some (drop 17 (c # cs))
      else recommendations_match cs)"

text \<open>\<open>m[1].split('\n').filter(line => line.trim() !== '').map(line => line.trim())\<close>.\<close>

definition trimmed_lines :: "string \<Rightarrow> string list" where
  "trimmed_lines s = map trim (filter non_blank (split_lines s))"

record report =
  score :: number
  topIssues :: "string list"
  recommendations :: "string list"

definition parse_report :: "string \<Rightarrow> report" where
  "parse_report aiContent =
     \<lparr> score = parse_score aiContent,
       topIssues = (case issues_match aiContent of None \<Rightarrow> [] | Some m \<Rightarrow> trimmed_lines m),
       recommendations =
         (case recommendations_match aiContent of None \<Rightarrow> [] | Some m \<Rightarrow> trimmed_lines m) \<rparr>"

subsection \<open>The handlers\<close>

datatype 'a response =
  Failure nat string  \<comment> \<open>\<open>res.status(code).json({ success: false, error })\<close>\<close>
| Success 'a          \<comment> \<open>\<open>res.json({ success: true, data })\<close>\<close>

record generated_question =
  question :: string
  options :: "string list"
  questionNumber :: int
  isComplete :: bool

record start_data = generated_question +
  sessionId :: string

type_synonym generator = "string \<Rightarrow> nat \<Rightarrow> string option"

text \<open>The operand of \<open>!\<close> on a string field and on a number field.\<close>

definition falsy_string :: "string option \<Rightarrow> bool" where
  "falsy_string v = (case v of None \<Rightarrow> True | Some s \<Rightarrow> s = [])"

definition falsy_number :: "int option \<Rightarrow> bool" where
  "falsy_number v = (case v of None \<Rightarrow> True | Some n \<Rightarrow> n = 0)"

definition start_assessment :: "string \<Rightarrow> int \<Rightarrow> store \<Rightarrow> start_data response \<times> store" where
  "start_assessment uuid now st =
     (Success \<lparr> question = ''What best describes your business?'',
                options = [''A. Retail and E-commerce'',
                           ''B. Service-based Business (consulting, agency, etc.)'',
                           ''C. Manufacturing and Production'',
                           ''D. Technology and Software Development''],
                questionNumber = 1,
                isComplete = False,
                sessionId = uuid \<rparr>,
      sessions_set uuid \<lparr> businessType = None, answers = [], lastActivity = now \<rparr> st)"

text \<open>The entry pushed on \<open>session.answers\<close>, and the two prompts.\<close>

definition answer_entry :: "int \<Rightarrow> string \<Rightarrow> string" where
  "answer_entry n answer = ''Question '' @ num_to_string n @ '': '' @ answer"

definition question_prompt :: "session \<Rightarrow> string" where
  "question_prompt s =
     ''Business type: '' @ (case businessType s of None \<Rightarrow> ''null'' | Some b \<Rightarrow> b) @
     '', Previous answers: '' @ join ''; '' (answers s) @
     ''. Generate next revealing question about their operations with 4 options A-D from organized to chaotic.''"

definition report_prompt :: "session \<Rightarrow> string" where
  "report_prompt s =
     ''Analyze responses: '' @ join ''; '' (answers s) @
     ''. Create chaos score 1-100 and identify top 3 operational issues and provide actionable recommendations for each.''"

text \<open>The three assignments of lines 85 to 91 on the session object.\<close>

definition record_answer :: "int \<Rightarrow> int \<Rightarrow> string \<Rightarrow> session \<Rightarrow> session" where
  "record_answer now n answer s =
     (let s1 = s\<lparr>lastActivity := now\<rparr>;
          s2 = (if n = 1 then s1\<lparr>businessType := Some answer\<rparr> else s1)
      in s2\<lparr>answers := answers s2 @ [answer_entry n answer]\<rparr>)"

definition next_question ::
  "generator \<Rightarrow> int \<Rightarrow> string option \<Rightarrow> string option \<Rightarrow> int option \<Rightarrow> store
     \<Rightarrow> generated_question response \<times> store" where
  "next_question gen now sid selectedAnswer qn st =
     (if falsy_string sid \<or> falsy_string selectedAnswer \<or> falsy_number qn
      then (Failure 400 ''Missing sessionId, selectedAnswer, or questionNumber'', st)
      else case (sid, selectedAnswer, qn) of
        (Some key, Some answer, Some n) \<Rightarrow>
          (case sessions_get st key of
             None \<Rightarrow> (Failure 404 ''Session not found or expired'', st)
           | Some s0 \<Rightarrow>
               let s = record_answer now n answer s0;
                   st' = sessions_set key s st
               in case gen (question_prompt s) 200 of
                    None \<Rightarrow> (Failure 500 ''Failed to generate next question'', st')
                  | Some content \<Rightarrow>
                      let aiContent = trim content
                      in (Success \<lparr> question = parse_question aiContent,
                                    options = parse_options aiContent,
                                    questionNumber = js_add n 1,
                                    isComplete = (n \<ge> 5) \<rparr>, st'))
      | _ \<Rightarrow> (Failure 400 ''Missing sessionId, selectedAnswer, or questionNumber'', st))"

definition generate_report ::
  "generator \<Rightarrow> int \<Rightarrow> string option \<Rightarrow> store \<Rightarrow> report response \<times> store" where
  "generate_report gen now sid st =
     (if falsy_string sid then (Failure 400 ''Missing sessionId'', st)
      else case sid of
        Some key \<Rightarrow>
          (case sessions_get st key of
             None \<Rightarrow> (Failure 404 ''Session not found or expired'', st)
           | Some s0 \<Rightarrow>
               let s = s0\<lparr>lastActivity := now\<rparr>;
                   st' = sessions_set key s st
               in case gen (report_prompt s) 500 of
                    None \<Rightarrow> (Failure 500 ''Failed to generate report'', st')
                  | Some content \<Rightarrow>
                      (Success (parse_report (trim content)), sessions_delete key st'))
      | None \<Rightarrow> (Failure 400 ''Missing sessionId'', st))"

subsection \<open>A run of the protocol\<close>

text \<open>
  The answering phase of one client: consecutive next-question requests for the session
  \<open>k\<close>, numbered upwards from \<open>n\<close>, each with its own generator, time and selected
  answer. The result is the list of responses and the store after the last request.
\<close>

fun answer_turns ::
  "string \<Rightarrow> int \<Rightarrow> (generator \<times> int \<times> string) list \<Rightarrow> store
     \<Rightarrow> generated_question response list \<times> store" where
  "answer_turns k n [] st = ([], st)"
| "answer_turns k n ((gen, now, answer) # turns) st =
     (let (r, st') = next_question gen now (Some k) (Some answer) (Some n) st;
          (rs, st'') = answer_turns k (n + 1) turns st'
      in (r # rs, st''))"

definition is_success :: "'a response \<Rightarrow> bool" where
  "is_success r = (case r of Success d \<Rightarrow> True | Failure code msg \<Rightarrow> False)"

subsection \<open>Matches of the score pattern\<close>

text \<open>A match of \<open>/Chaos score: (\d+)/i\<close> begins at the first character of \<open>s\<close>.\<close>

definition score_at :: "string \<Rightarrow> bool" where
  "score_at s \<longleftrightarrow>
     ci_prefix ''Chaos score: '' s \<and> (case drop 13 s of [] \<Rightarrow> False | d # r \<Rightarrow> is_digit d)"

section \<open>Properties\<close>

subsection \<open>Rounding\<close>

lemma bit_length_less: "m < 2 ^ k \<Longrightarrow> bit_length m \<le> k"
proof (induction k arbitrary: m)
  case 0
  then show ?case by (simp add: bit_length.simps)
next
  case (Suc k)
  from Suc.prems have "m div 2 < 2 ^ k" by simp
  from Suc.IH [OF this] show ?case
    by (subst bit_length.simps) simp
qed

lemma bit_length_between: "2 ^ k \<le> m \<Longrightarrow> m < 2 ^ Suc k \<Longrightarrow> bit_length m = Suc k"
proof (induction k arbitrary: m)
  case 0
  then have "m = 1" by simp
  then show ?case by (simp add: bit_length.simps)
next
  case (Suc k)
  from Suc.prems have "2 ^ k \<le> m div 2" "m div 2 < 2 ^ Suc k" "m \<noteq> 0" by auto
  from Suc.IH [OF this(1,2)] this(3) show ?case
    by (subst bit_length.simps) simp
qed

lemma round_to_double_small: "m < 2 ^ 53 \<Longrightarrow> round_to_double m = m"
proof -
  assume "m < 2 ^ 53"
  then have "bit_length m - 53 = 0"
    using bit_length_less [of m 53] by simp
  then show ?thesis by (simp add: round_to_double_def)
qed

lemma round_to_double_pow53: "round_to_double 9007199254740992 = 9007199254740992"
proof -
  have "bit_length 9007199254740992 = 54"
    using bit_length_between [of 53 9007199254740992] by simp
  then show ?thesis
    by (simp add: round_to_double_def Let_def)
qed

text \<open>The first integer that is not a double lies half way and goes to the even side.\<close>

lemma round_to_double_tie: "round_to_double 9007199254740993 = 9007199254740992"
proof -
  have "bit_length 9007199254740993 = 54"
    using bit_length_between [of 53 9007199254740993] by simp
  then show ?thesis
    by (simp add: round_to_double_def Let_def)
qed

lemma round_to_double_exact: "m \<le> 2 ^ 53 \<Longrightarrow> round_to_double m = m"
proof (cases "m < 2 ^ 53")
  case True
  then show ?thesis by (rule round_to_double_small)
next
  case False
  assume "m \<le> 2 ^ 53"
  with False have "m = 9007199254740992" by simp
  then show ?thesis by (simp only: round_to_double_pow53)
qed

lemma round_int_exact: "\<bar>i\<bar> \<le> 2 ^ 53 \<Longrightarrow> round_int i = i"
proof -
  assume a: "\<bar>i\<bar> \<le> 2 ^ 53"
  have "round_to_double (nat (- i)) = nat (- i)"
  proof (rule round_to_double_exact)
    from a have "- i \<le> 2 ^ 53" by linarith
    then show "nat (- i) \<le> 2 ^ 53" by (simp only: nat_le_iff of_nat_power of_nat_numeral)
  qed
  moreover have "round_to_double (nat i) = nat i"
  proof (rule round_to_double_exact)
    from a have "i \<le> 2 ^ 53" by linarith
    then show "nat i \<le> 2 ^ 53" by (simp only: nat_le_iff of_nat_power of_nat_numeral)
  qed
  ultimately show ?thesis
    unfolding round_int_def by (cases "i < 0") simp_all
qed

lemma js_add_exact: "\<bar>n\<bar> < 2 ^ 53 \<Longrightarrow> js_add n 1 = n + 1"
proof -
  assume "\<bar>n\<bar> < 2 ^ 53"
  then have "\<bar>n + 1\<bar> \<le> 2 ^ 53" by linarith
  then show ?thesis unfolding js_add_def by (rule round_int_exact)
qed

lemma js_add_tie: "js_add 9007199254740992 1 = 9007199254740992"
  by (simp add: js_add_def round_int_def round_to_double_tie)

lemma parseInt_exact: "digits_value ds < 2 ^ 53 \<Longrightarrow> parseInt ds = Finite (int (digits_value ds))"
proof -
  assume small: "digits_value ds < 2 ^ 53"
  have "(2::nat) ^ 53 < 2 ^ 1024"
    by (rule power_strict_increasing) simp_all
  with small have "digits_value ds < 2 ^ 1024" by (rule less_trans)
  with small show ?thesis
    by (simp only: parseInt_def Let_def round_to_double_small if_True)
qed

text \<open>Beyond \<open>2^53\<close> the digits are rounded, and from \<open>2^1024\<close> the result is \<open>Infinity\<close>.\<close>

lemma digits_value_tie: "digits_value ''9007199254740993'' = 9007199254740993"
  by (simp add: digits_value_def digit_val_def)

lemma parseInt_rounds: "parseInt ''9007199254740993'' = Finite 9007199254740992"
proof -
  have "(2::nat) ^ 53 < 2 ^ 1024"
    by (rule power_strict_increasing) simp_all
  then have "(9007199254740992::nat) < 2 ^ 1024" by simp
  then have "parseInt ''9007199254740993'' = Finite (int 9007199254740992)"
    by (simp only: parseInt_def Let_def digits_value_tie round_to_double_tie if_True)
  then show ?thesis by simp
qed

lemma bit_length_upper: "m < 2 ^ bit_length m"
proof (induction m rule: bit_length.induct)
  case (1 n)
  show ?case
  proof (cases "n = 0")
    case True
    then show ?thesis by simp
  next
    case False
    with 1 have IH: "n div 2 < 2 ^ bit_length (n div 2)" by simp
    have bl: "bit_length n = Suc (bit_length (n div 2))"
      using False by (subst bit_length.simps) simp
    from IH have "n < 2 * 2 ^ bit_length (n div 2)" by linarith
    then show ?thesis by (simp add: bl)
  qed
qed

lemma bit_length_lower: "m \<noteq> 0 \<Longrightarrow> 2 ^ (bit_length m - 1) \<le> m"
proof (induction m rule: bit_length.induct)
  case (1 n)
  have bl: "bit_length n = Suc (bit_length (n div 2))"
    using 1(2) by (subst bit_length.simps) simp
  show ?case
  proof (cases "n div 2 = 0")
    case True
    then have "bit_length (n div 2) = 0" by (simp add: bit_length.simps)
    with 1(2) show ?thesis by (simp add: bl)
  next
    case False
    with 1 have IH: "2 ^ (bit_length (n div 2) - 1) \<le> n div 2" by simp
    from False obtain b where b: "bit_length (n div 2) = Suc b"
      by (subst (asm) bit_length.simps [of "n div 2"]) (auto simp: bit_length.simps [of "n div 2"])
    from IH have "2 * 2 ^ b \<le> 2 * (n div 2)" by (simp add: b)
    also have "\<dots> \<le> n" by simp
    finally show ?thesis by (simp add: bl b)
  qed
qed

lemma round_to_double_lower: "2 ^ k \<le> m \<Longrightarrow> 2 ^ k \<le> round_to_double m"
proof (cases "m < 2 ^ 53")
  case True
  assume "2 ^ k \<le> m"
  with True show ?thesis by (simp only: round_to_double_small)
next
  case False
  assume km: "2 ^ k \<le> m"
  define bl where "bl = bit_length m"
  define e where "e = bl - 53"
  have up: "m < 2 ^ bl"
    unfolding bl_def by (rule bit_length_upper)
  from False have big: "(2::nat) ^ 53 \<le> m" by simp
  from big up have "(2::nat) ^ 53 < 2 ^ bl" by (rule le_less_trans)
  then have bl: "53 < bl" by (simp only: power_strict_increasing_iff rel_simps)
  from False have m0: "m \<noteq> 0" by auto
  have low: "2 ^ (bl - 1) \<le> m"
    unfolding bl_def by (rule bit_length_lower [OF m0])
  have split: "bl - 1 = e + 52" using bl by (simp add: e_def)
  have "2 ^ 52 * 2 ^ e \<le> m" using low by (simp only: split power_add mult.commute)
  then have q: "2 ^ 52 \<le> m div 2 ^ e"
    by (simp only: less_eq_div_iff_mult_less_eq zero_less_power zero_less_numeral)
  have res: "(m div 2 ^ e) * 2 ^ e \<le> round_to_double m"
    unfolding round_to_double_def Let_def e_def bl_def by simp
  have "2 ^ 52 * 2 ^ e \<le> (m div 2 ^ e) * 2 ^ e"
    using q by (rule mult_le_mono1)
  then have "2 ^ (bl - 1) \<le> (m div 2 ^ e) * 2 ^ e"
    by (simp only: split power_add mult.commute)
  with res have r: "2 ^ (bl - 1) \<le> round_to_double m" by (rule order_trans [rotated])
  from km up have "(2::nat) ^ k < 2 ^ bl" by (rule le_less_trans)
  then have "k < bl" by (simp only: power_strict_increasing_iff rel_simps)
  then have "k \<le> bl - 1" by simp
  then have "(2::nat) ^ k \<le> 2 ^ (bl - 1)" by (rule power_increasing) simp
  with r show ?thesis by (rule order_trans [rotated])
qed

lemma parseInt_overflow: "2 ^ 1024 \<le> digits_value ds \<Longrightarrow> parseInt ds = Infinity"
proof -
  assume "2 ^ 1024 \<le> digits_value ds"
  then have "2 ^ 1024 \<le> round_to_double (digits_value ds)" by (rule round_to_double_lower)
  then have "\<not> round_to_double (digits_value ds) < 2 ^ 1024" by (simp only: not_less)
  then show ?thesis by (simp only: parseInt_def Let_def if_False)
qed

subsection \<open>The store\<close>

lemma map_of_sessions_set: "map_of (sessions_set k v st) = (map_of st)(k \<mapsto> v)"
  by (induction st) (auto simp: fun_eq_iff)

lemma map_of_sessions_delete: "map_of (sessions_delete k st) = (map_of st)(k := None)"
  by (induction st) (auto simp: sessions_delete_def fun_eq_iff)

lemma sessions_get_set:
  "sessions_get (sessions_set k v st) k' = (if k' = k then Some v else sessions_get st k')"
  by (simp add: sessions_get_def map_of_sessions_set)

lemma sessions_get_delete:
  "sessions_get (sessions_delete k st) k' = (if k' = k then None else sessions_get st k')"
  by (simp add: sessions_get_def map_of_sessions_delete)

lemma keys_sessions_set:
  "map fst (sessions_set k v st) =
     (if k \<in> set (map fst st) then map fst st else map fst st @ [k])"
  by (induction st) force+

text \<open>Every operation on the store keeps the keys distinct, as a \<open>Map\<close> does.\<close>

lemma distinct_keys_set: "distinct_keys st \<Longrightarrow> distinct_keys (sessions_set k v st)"
  by (simp add: distinct_keys_def keys_sessions_set)

lemma distinct_keys_delete: "distinct_keys st \<Longrightarrow> distinct_keys (sessions_delete k st)"
  by (simp add: distinct_keys_def sessions_delete_def distinct_map_filter)

lemma map_of_filter_distinct:
  "distinct (map fst st) \<Longrightarrow>
     map_of (filter P st) k =
       (case map_of st k of None \<Rightarrow> None | Some v \<Rightarrow> if P (k, v) then Some v else None)"
proof (induction st)
  case Nil
  show ?case by simp
next
  case (Cons e st)
  obtain k' v' where e: "e = (k', v')" by (cases e)
  have absent: "map_of st k' = None" "map_of (filter P st) k' = None"
    using Cons.prems by (auto simp: e map_of_eq_None_iff)
  from Cons show ?case
    by (auto simp: e absent split: option.splits)
qed

subsection \<open>Session cleanup\<close>

lemma sweep_loop_filter:
  "sweep_loop now es st =
     filter (\<lambda>(k, v). \<not> (\<exists>s. (k, s) \<in> set es \<and> now - lastActivity s > 30 * 60 * 1000)) st"
proof (induction es arbitrary: st)
  case Nil
  show ?case by simp
next
  case (Cons e es)
  obtain k s where e: "e = (k, s)" by (cases e)
  show ?case
    by (auto simp: e Cons.IH sessions_delete_def intro!: filter_cong)
qed

lemma sweep_filter:
  assumes "distinct_keys st"
  shows "sweep now st = filter (\<lambda>(k, s). \<not> now - lastActivity s > 30 * 60 * 1000) st"
proof -
  have same: "s = v" if "(k, v) \<in> set st" "(k, s) \<in> set st" for k v s
    using assms that unfolding distinct_keys_def by (metis eq_key_imp_eq_value)
  show ?thesis
    unfolding sweep_def sweep_loop_filter by (rule filter_cong) (auto dest: same)
qed

lemma distinct_keys_sweep: "distinct_keys st \<Longrightarrow> distinct_keys (sweep now st)"
  by (simp add: sweep_filter) (simp add: distinct_keys_def distinct_map_filter)

lemma distinct_keys_handlers:
  assumes "distinct_keys st"
  shows "distinct_keys (snd (start_assessment uuid now st))"
    and "distinct_keys (snd (next_question gen now sid answer qn st))"
    and "distinct_keys (snd (generate_report gen now sid st))"
  using assms
  by (auto simp: start_assessment_def next_question_def generate_report_def Let_def
      distinct_keys_set distinct_keys_delete split: option.splits)

text \<open>
  Claim C9. Times are in milliseconds, so 1800 seconds are \<open>1800 * 1000\<close>. On a store
  with distinct keys the sweep keeps, in their order and unchanged, exactly the records
  whose idle time \<open>now - lastActivity\<close> does not exceed 1800 seconds: a record idle for
  longer is absent afterwards, every other record is found as it was, no record appears,
  and a record last touched 1799 seconds ago survives.
\<close>

theorem sweep_deletes_exactly_idle_sessions:
  assumes "distinct_keys st"
  shows "sweep now st = filter (\<lambda>(k, s). \<not> now - lastActivity s > 1800 * 1000) st
    \<and> (\<forall>k s. sessions_get st k = Some s \<longrightarrow>
          sessions_get (sweep now st) k =
            (if now - lastActivity s > 1800 * 1000 then None else Some s))
    \<and> (\<forall>k. sessions_get st k = None \<longrightarrow> sessions_get (sweep now st) k = None)
    \<and> (\<forall>k s. sessions_get st k = Some s \<and> now - lastActivity s = 1799 * 1000 \<longrightarrow>
          sessions_get (sweep now st) k = Some s)"
proof -
  have eq: "sweep now st = filter (\<lambda>(k, s). \<not> now - lastActivity s > 1800 * 1000) st"
    using sweep_filter [OF assms, of now] by simp
  have get: "sessions_get (sweep now st) k =
      (case sessions_get st k of None \<Rightarrow> None
       | Some s \<Rightarrow> if now - lastActivity s > 1800 * 1000 then None else Some s)" for k
    using assms unfolding eq sessions_get_def distinct_keys_def
    by (simp add: map_of_filter_distinct split: option.splits)
  show ?thesis
    unfolding get using eq by simp
qed

theorem sweep_deletes_exactly_idle_sessions_witness:
  "distinct_keys
     [(''a'', \<lparr>businessType = None, answers = [], lastActivity = 0\<rparr>),
      (''b'', \<lparr>businessType = Some ''A. Retail'', answers = [''Question 1: A. Retail''],
              lastActivity = 1001\<rparr>)]
   \<and> sweep 1800001
       [(''a'', \<lparr>businessType = None, answers = [], lastActivity = 0\<rparr>),
        (''b'', \<lparr>businessType = Some ''A. Retail'', answers = [''Question 1: A. Retail''],
                lastActivity = 1001\<rparr>)]
     = [(''b'', \<lparr>businessType = Some ''A. Retail'', answers = [''Question 1: A. Retail''],
                lastActivity = 1001\<rparr>)]"
proof -
  let ?st = "[(''a'', \<lparr>businessType = None, answers = [], lastActivity = 0\<rparr>),
      (''b'', \<lparr>businessType = Some ''A. Retail'', answers = [''Question 1: A. Retail''],
              lastActivity = 1001\<rparr>)]"
  have d: "distinct_keys ?st" by (simp add: distinct_keys_def)
  from sweep_deletes_exactly_idle_sessions [OF d, of 1800001] show ?thesis
    using d by simp
qed

subsection \<open>The handlers\<close>

lemma report_prompt_touch [simp]: "report_prompt (s\<lparr>lastActivity := t\<rparr>) = report_prompt s"
  by (simp add: report_prompt_def)

text \<open>What the two handlers do once the request has passed validation and lookup.\<close>

lemma next_question_accepted:
  assumes "k \<noteq> []" "a \<noteq> []" "n \<noteq> 0" "sessions_get st k = Some s0"
  shows "next_question gen now (Some k) (Some a) (Some n) st =
    (case gen (question_prompt (record_answer now n a s0)) 200 of
       None \<Rightarrow> Failure 500 ''Failed to generate next question''
     | Some content \<Rightarrow>
         Success \<lparr> question = parse_question (trim content),
                   options = parse_options (trim content),
                   questionNumber = js_add n 1,
                   isComplete = (n \<ge> 5) \<rparr>,
     sessions_set k (record_answer now n a s0) st)"
  using assms
  by (simp add: next_question_def falsy_string_def falsy_number_def Let_def split: option.splits)

lemma generate_report_accepted:
  assumes "k \<noteq> []" "sessions_get st k = Some s"
  shows "generate_report gen now (Some k) st =
    (case gen (report_prompt s) 500 of
       None \<Rightarrow> (Failure 500 ''Failed to generate report'',
                 sessions_set k (s\<lparr>lastActivity := now\<rparr>) st)
     | Some content \<Rightarrow>
         (Success (parse_report (trim content)),
          sessions_delete k (sessions_set k (s\<lparr>lastActivity := now\<rparr>) st)))"
  using assms
  by (simp add: generate_report_def falsy_string_def Let_def split: option.splits)

lemma generate_report_unknown:
  assumes "k \<noteq> []" "sessions_get st k = None"
  shows "generate_report gen now (Some k) st = (Failure 404 ''Session not found or expired'', st)"
  using assms by (simp add: generate_report_def falsy_string_def)


text \<open>
  Claim C8. A next-question request in which \<open>sessionId\<close>, \<open>selectedAnswer\<close> or
  \<open>questionNumber\<close> is missing, the empty string or zero is answered with status 400 and
  the store is returned as it was; a request with all three fields present, non-empty and
  non-zero whose \<open>sessionId\<close> is not a key of the store is answered with status 404, and
  again the store is returned as it was.
\<close>

theorem next_question_rejects_without_mutation:
  "(sid = None \<or> sid = Some [] \<or> answer = None \<or> answer = Some [] \<or> qn = None \<or> qn = Some 0 \<longrightarrow>
      next_question gen now sid answer qn st =
        (Failure 400 ''Missing sessionId, selectedAnswer, or questionNumber'', st))
   \<and> (\<forall>k a n. sid = Some k \<and> k \<noteq> [] \<and> answer = Some a \<and> a \<noteq> [] \<and> qn = Some n \<and> n \<noteq> 0 \<and>
          sessions_get st k = None \<longrightarrow>
      next_question gen now sid answer qn st = (Failure 404 ''Session not found or expired'', st))"
  by (auto simp: next_question_def falsy_string_def falsy_number_def)

theorem next_question_rejects_without_mutation_witness:
  "next_question (\<lambda>p m. Some ''Q?'') 10 (Some ''s1'') (Some []) (Some 2)
       [(''s1'', \<lparr>businessType = None, answers = [], lastActivity = 0\<rparr>)]
     = (Failure 400 ''Missing sessionId, selectedAnswer, or questionNumber'',
        [(''s1'', \<lparr>businessType = None, answers = [], lastActivity = 0\<rparr>)])
   \<and> next_question (\<lambda>p m. Some ''Q?'') 10 (Some ''s2'') (Some ''B. Service'') (Some 2)
       [(''s1'', \<lparr>businessType = None, answers = [], lastActivity = 0\<rparr>)]
     = (Failure 404 ''Session not found or expired'',
        [(''s1'', \<lparr>businessType = None, answers = [], lastActivity = 0\<rparr>)])"
  using next_question_rejects_without_mutation
      [of "Some ''s1''" "Some []" "Some 2" "\<lambda>p m. Some ''Q?''" 10
          "[(''s1'', \<lparr>businessType = None, answers = [], lastActivity = 0\<rparr>)]"]
    next_question_rejects_without_mutation
      [of "Some ''s2''" "Some ''B. Service''" "Some 2" "\<lambda>p m. Some ''Q?''" 10
          "[(''s1'', \<lparr>businessType = None, answers = [], lastActivity = 0\<rparr>)]"]
  by (simp add: sessions_get_def)



text \<open>
  Claim C4, as the code has it. A next-question request with question number \<open>n\<close> that
  is answered successfully returns \<open>isComplete\<close> exactly when \<open>n \<ge> 5\<close>, and returns
  question number \<open>n + 1\<close> when \<open>n\<close> is below \<open>2^53\<close> in magnitude, where the addition
  of line 121 is exact.
\<close>

theorem next_question_number_and_completion:
  assumes "next_question gen now sid answer (Some n) st = (Success q, st')"
  shows "(\<bar>n\<bar> < 2 ^ 53 \<longrightarrow> questionNumber q = n + 1) \<and> (isComplete q \<longleftrightarrow> n \<ge> 5)"
proof -
  from assms have "questionNumber q = js_add n 1 \<and> (isComplete q \<longleftrightarrow> n \<ge> 5)"
    by (auto simp: next_question_def Let_def split: if_splits option.splits)
  then show ?thesis
    by (simp add: js_add_exact)
qed

theorem next_question_number_and_completion_witness:
  "next_question (\<lambda>p m. Some ''Q?'') 10 (Some ''s1'') (Some ''D'') (Some 5)
       [(''s1'', \<lparr>businessType = Some ''A'', answers = [''Question 1: A''], lastActivity = 0\<rparr>)]
     = (Success \<lparr>question = ''Q?'', options = [], questionNumber = 6, isComplete = True\<rparr>,
        [(''s1'', \<lparr>businessType = Some ''A'', answers = [''Question 1: A'', ''Question 5: D''],
                 lastActivity = 10\<rparr>)])
   \<and> questionNumber \<lparr>question = ''Q?'', options = [], questionNumber = 6, isComplete = True\<rparr> = 5 + 1
   \<and> (isComplete \<lparr>question = ''Q?'', options = [], questionNumber = 6, isComplete = True\<rparr>
        \<longleftrightarrow> (5::int) \<ge> 5)"
proof -
  have six: "js_add 5 1 = 6"
    using js_add_exact [of 5] by simp
  have run: "next_question (\<lambda>p m. Some ''Q?'') 10 (Some ''s1'') (Some ''D'') (Some 5)
       [(''s1'', \<lparr>businessType = Some ''A'', answers = [''Question 1: A''], lastActivity = 0\<rparr>)]
     = (Success \<lparr>question = ''Q?'', options = [], questionNumber = 6, isComplete = True\<rparr>,
        [(''s1'', \<lparr>businessType = Some ''A'', answers = [''Question 1: A'', ''Question 5: D''],
                 lastActivity = 10\<rparr>)])"
    by (simp add: next_question_def falsy_string_def falsy_number_def sessions_get_def
        record_answer_def answer_entry_def num_to_string_def nat_digits.simps Let_def
        trim_def is_space_def parse_question_def parse_options_def non_blank_lines_def
        non_blank_def six)
  from next_question_number_and_completion [OF run] run show ?thesis by simp
qed

text \<open>
  The claim as the spec words it (\<open>n + 1\<close> for every \<open>n\<close>) fails where the addition
  rounds: the request below carries question number \<open>2^53\<close> and is answered with the
  same number.
\<close>

theorem next_question_number_counterexample:
  "fst (next_question (\<lambda>p m. Some ''Q?'') 10 (Some ''s1'') (Some ''D'') (Some 9007199254740992)
       [(''s1'', \<lparr>businessType = Some ''A'', answers = [''Question 1: A''], lastActivity = 0\<rparr>)])
     = Success \<lparr>question = ''Q?'', options = [], questionNumber = 9007199254740992,
                isComplete = True\<rparr>
   \<and> (9007199254740992 :: int) \<noteq> 9007199254740992 + 1"
  by (simp add: next_question_def falsy_string_def falsy_number_def sessions_get_def Let_def
      trim_def is_space_def parse_question_def parse_options_def non_blank_lines_def
      non_blank_def js_add_tie)

text \<open>
  Claim C2. For a session found under a (non-empty) id, a generate-report request whose
  generator call succeeds returns the report parsed from the trimmed text and leaves a
  store without that id, so that a generate-report request for the same id on that store
  is answered with status 404, whatever the generator would do.
\<close>

theorem generate_report_is_one_shot:
  assumes "k \<noteq> []" "sessions_get st k = Some s" "gen (report_prompt s) 500 = Some content"
  shows "fst (generate_report gen now (Some k) st) = Success (parse_report (trim content))
    \<and> sessions_get (snd (generate_report gen now (Some k) st)) k = None
    \<and> (\<forall>gen' now'.
          generate_report gen' now' (Some k) (snd (generate_report gen now (Some k) st)) =
            (Failure 404 ''Session not found or expired'',
             snd (generate_report gen now (Some k) st)))"
proof -
  have run: "generate_report gen now (Some k) st =
      (Success (parse_report (trim content)),
       sessions_delete k (sessions_set k (s\<lparr>lastActivity := now\<rparr>) st))"
    using generate_report_accepted [OF assms(1,2), of gen now] assms(3) by simp
  have gone: "sessions_get (sessions_delete k (sessions_set k (s\<lparr>lastActivity := now\<rparr>) st)) k = None"
    by (simp add: sessions_get_delete)
  show ?thesis
    unfolding run using gone generate_report_unknown [OF assms(1) gone] by simp
qed

theorem generate_report_is_one_shot_witness:
  "fst (generate_report (\<lambda>p m. Some ''Chaos score: 73'') 10 (Some ''s1'')
      [(''s1'', \<lparr>businessType = Some ''A'', answers = [''Question 1: A''], lastActivity = 0\<rparr>)])
     = Success (parse_report (trim ''Chaos score: 73''))
   \<and> generate_report (\<lambda>p m. Some ''Chaos score: 80'') 11 (Some ''s1'')
       (snd (generate_report (\<lambda>p m. Some ''Chaos score: 73'') 10 (Some ''s1'')
         [(''s1'', \<lparr>businessType = Some ''A'', answers = [''Question 1: A''], lastActivity = 0\<rparr>)]))
     = (Failure 404 ''Session not found or expired'', [])"
proof -
  let ?st = "[(''s1'', \<lparr>businessType = Some ''A'', answers = [''Question 1: A''], lastActivity = 0\<rparr>)]"
  have k: "''s1'' \<noteq> []" by simp
  have get: "sessions_get ?st ''s1'' =
      Some \<lparr>businessType = Some ''A'', answers = [''Question 1: A''], lastActivity = 0\<rparr>"
    by (simp add: sessions_get_def)
  have g: "(\<lambda>p m. Some ''Chaos score: 73'')
      (report_prompt \<lparr>businessType = Some ''A'', answers = [''Question 1: A''], lastActivity = 0\<rparr>) (500::nat)
      = Some ''Chaos score: 73''"
    by simp
  have st': "snd (generate_report (\<lambda>p m. Some ''Chaos score: 73'') 10 (Some ''s1'') ?st) = []"
    by (simp add: generate_report_def falsy_string_def sessions_get_def sessions_delete_def Let_def)
  from generate_report_is_one_shot [OF k get g, of 10] show ?thesis
    by (simp add: st')
qed

text \<open>
  Claim C7, as the code has it. For a session found under a (non-empty) id, a
  generate-report request whose generator call fails is answered with status 500; the
  session stays in the store with its \<open>businessType\<close> and \<open>answers\<close> as they were and
  its \<open>lastActivity\<close> set to the time of the request (line 161 runs before the generator
  is called); the other sessions are as before, and a later generate-report request for
  the same id is not answered with status 404.
\<close>

theorem generate_report_failure_keeps_session:
  assumes "k \<noteq> []" "sessions_get st k = Some s" "gen (report_prompt s) 500 = None"
  shows "fst (generate_report gen now (Some k) st) = Failure 500 ''Failed to generate report''
    \<and> sessions_get (snd (generate_report gen now (Some k) st)) k = Some (s\<lparr>lastActivity := now\<rparr>)
    \<and> (\<forall>k'. k' \<noteq> k \<longrightarrow>
          sessions_get (snd (generate_report gen now (Some k) st)) k' = sessions_get st k')
    \<and> (\<forall>gen' now'.
          fst (generate_report gen' now' (Some k) (snd (generate_report gen now (Some k) st)))
            \<noteq> Failure 404 ''Session not found or expired'')"
proof -
  have run: "generate_report gen now (Some k) st =
      (Failure 500 ''Failed to generate report'', sessions_set k (s\<lparr>lastActivity := now\<rparr>) st)"
    using generate_report_accepted [OF assms(1,2), of gen now] assms(3) by simp
  have kept: "sessions_get (sessions_set k (s\<lparr>lastActivity := now\<rparr>) st) k = Some (s\<lparr>lastActivity := now\<rparr>)"
    by (simp add: sessions_get_set)
  have later: "fst (generate_report gen' now' (Some k) (sessions_set k (s\<lparr>lastActivity := now\<rparr>) st))
      \<noteq> Failure 404 ''Session not found or expired''" for gen' now'
    unfolding generate_report_accepted [OF assms(1) kept] by (simp split: option.splits)
  show ?thesis
    unfolding run using kept later by (simp add: sessions_get_set)
qed

theorem generate_report_failure_keeps_session_witness:
  "generate_report (\<lambda>p m. None) 10 (Some ''s1'')
      [(''s1'', \<lparr>businessType = Some ''A'', answers = [''Question 1: A''], lastActivity = 0\<rparr>)]
     = (Failure 500 ''Failed to generate report'',
        [(''s1'', \<lparr>businessType = Some ''A'', answers = [''Question 1: A''], lastActivity = 10\<rparr>)])"
proof -
  let ?s = "\<lparr>businessType = Some ''A'', answers = [''Question 1: A''], lastActivity = 0\<rparr>"
  let ?st = "[(''s1'', ?s)]"
  have k: "''s1'' \<noteq> []" by simp
  have get: "sessions_get ?st ''s1'' = Some ?s"
    by (simp add: sessions_get_def)
  have g: "(\<lambda>p m. None) (report_prompt ?s) (500::nat) = (None :: string option)"
    by simp
  have st': "snd (generate_report (\<lambda>p m. None) 10 (Some ''s1'') ?st)
      = [(''s1'', \<lparr>businessType = Some ''A'', answers = [''Question 1: A''], lastActivity = 10\<rparr>)]"
    by (simp add: generate_report_def falsy_string_def sessions_get_def Let_def)
  from generate_report_failure_keeps_session [OF k get g, of 10] st' show ?thesis
    by (simp add: prod_eq_iff)
qed

text \<open>
  The claim as the spec words it ("no field of the session record modified") fails: the
  failed request below leaves \<open>lastActivity\<close> at 10, not at 0.
\<close>

theorem generate_report_failure_untouched_counterexample:
  "sessions_get
     (snd (generate_report (\<lambda>p m. None) 10 (Some ''s1'')
        [(''s1'', \<lparr>businessType = Some ''A'', answers = [''Question 1: A''], lastActivity = 0\<rparr>)]))
     ''s1''
   \<noteq> sessions_get
       [(''s1'', \<lparr>businessType = Some ''A'', answers = [''Question 1: A''], lastActivity = 0\<rparr>)]
       ''s1''"
  by (simp add: generate_report_def falsy_string_def sessions_get_def Let_def)

text \<open>
  Claim C10. For a session found under a (non-empty) id, the answer of generate-report
  is decided by the generator alone, called on the prompt built from the stored answers:
  status 500 when it fails, the parsed report when it succeeds, never 400 or 404. A
  session just created by start-assessment, with no business type and no answers, is
  accepted like any other: the generator is called on the prompt with an empty answer
  list.
\<close>

theorem generate_report_accepts_any_stored_session:
  "(k \<noteq> [] \<and> sessions_get st k = Some s \<longrightarrow>
      fst (generate_report gen now (Some k) st) =
        (case gen (report_prompt s) 500 of
           None \<Rightarrow> Failure 500 ''Failed to generate report''
         | Some content \<Rightarrow> Success (parse_report (trim content))))
   \<and> (k \<noteq> [] \<longrightarrow>
      fst (generate_report gen now (Some k) (snd (start_assessment k t0 st0))) =
        (case gen ''Analyze responses: . Create chaos score 1-100 and identify top 3 operational issues and provide actionable recommendations for each.'' 500 of
           None \<Rightarrow> Failure 500 ''Failed to generate report''
         | Some content \<Rightarrow> Success (parse_report (trim content))))"
proof -
  have fresh: "sessions_get (snd (start_assessment k t0 st0)) k =
      Some \<lparr>businessType = None, answers = [], lastActivity = t0\<rparr>"
    by (simp add: start_assessment_def sessions_get_set)
  have p: "report_prompt \<lparr>businessType = None, answers = [], lastActivity = t0\<rparr> =
      ''Analyze responses: . Create chaos score 1-100 and identify top 3 operational issues and provide actionable recommendations for each.''"
    by (simp add: report_prompt_def)
  show ?thesis
    using generate_report_accepted [of k st s gen now]
      generate_report_accepted [OF _ fresh, of gen now]
    by (auto simp: p split: option.splits)
qed

theorem generate_report_accepts_any_stored_session_witness:
  "fst (generate_report (\<lambda>p m. Some ''Chaos score: 73'') 10 (Some ''s1'')
          [(''s1'', \<lparr>businessType = Some ''A'', answers = [''Question 1: A''], lastActivity = 0\<rparr>)])
     = Success (parse_report ''Chaos score: 73'')
   \<and> fst (generate_report (\<lambda>p m. Some ''Chaos score: 73'') 10 (Some ''s1'')
          (snd (start_assessment ''s1'' 0 [])))
     = Success (parse_report ''Chaos score: 73'')"
  using generate_report_accepts_any_stored_session
    [of "''s1''"
        "[(''s1'', \<lparr>businessType = Some ''A'', answers = [''Question 1: A''], lastActivity = 0\<rparr>)]"
        "\<lparr>businessType = Some ''A'', answers = [''Question 1: A''], lastActivity = 0\<rparr>"
        "\<lambda>p m. Some ''Chaos score: 73''" 10 0 "[]"]
  by (simp add: trim_def is_space_def sessions_get_def)

subsection \<open>The whole run\<close>

lemma answer_turns_keeps_session:
  assumes "k \<noteq> []" "n \<ge> 1" "sessions_get st k \<noteq> None"
    "\<forall>(gen, now, a) \<in> set turns. a \<noteq> [] \<and> (\<forall>p. gen p 200 \<noteq> None)"
  shows "sessions_get (snd (answer_turns k n turns st)) k \<noteq> None
    \<and> (\<forall>r \<in> set (fst (answer_turns k n turns st)). is_success r)"
  using assms(2-)
proof (induction turns arbitrary: n st)
  case Nil
  then show ?case by simp
next
  case (Cons turn turns)
  obtain gen now a where turn: "turn = (gen, now, a)" by (cases turn)
  from Cons.prems obtain s0 where s0: "sessions_get st k = Some s0" by auto
  from Cons.prems have a: "a \<noteq> []" and g: "\<And>p. gen p 200 \<noteq> None" and n: "n \<noteq> 0"
    by (auto simp: turn)
  obtain content where c: "gen (question_prompt (record_answer now n a s0)) 200 = Some content"
    using g [of "question_prompt (record_answer now n a s0)"] by blast
  have step: "next_question gen now (Some k) (Some a) (Some n) st =
      (Success \<lparr> question = parse_question (trim content), options = parse_options (trim content),
                 questionNumber = js_add n 1, isComplete = (n \<ge> 5) \<rparr>,
       sessions_set k (record_answer now n a s0) st)"
    using next_question_accepted [OF assms(1) a n s0, of gen now] c by simp
  let ?st' = "sessions_set k (record_answer now n a s0) st"
  have kept: "sessions_get ?st' k \<noteq> None"
    by (simp add: sessions_get_set)
  have rest: "\<forall>(gen, now, a) \<in> set turns. a \<noteq> [] \<and> (\<forall>p. gen p 200 \<noteq> None)"
    using Cons.prems(3) by simp
  have n1: "1 \<le> n + 1"
    using Cons.prems(1) by simp
  note IH = Cons.IH [OF n1 kept rest]
  have unfold: "answer_turns k n (turn # turns) st =
      (Success \<lparr> question = parse_question (trim content), options = parse_options (trim content),
                 questionNumber = js_add n 1, isComplete = (n \<ge> 5) \<rparr>
         # fst (answer_turns k (n + 1) turns ?st'),
       snd (answer_turns k (n + 1) turns ?st'))"
    by (simp add: turn step split: prod.splits)
  show ?case
    unfolding unfold using IH by (simp add: is_success_def)
qed

text \<open>
  Claim C1. After start-assessment has created the session \<open>k\<close>, any run of accepted
  next-question requests numbered from 1 (five of them in the claim) whose generator
  calls succeed is answered with success throughout, and a generate-report request whose
  generator call succeeds is then answered with success and leaves a store in which \<open>k\<close>
  is absent.
\<close>

theorem full_run_succeeds_and_closes_session:
  assumes "k \<noteq> []"
    and "\<forall>(gen, now, a) \<in> set turns. a \<noteq> [] \<and> (\<forall>p. gen p 200 \<noteq> None)"
    and "\<forall>p. gen_r p 500 \<noteq> None"
  shows "(\<forall>r \<in> set (fst (answer_turns k 1 turns (snd (start_assessment k t0 st0)))). is_success r)
    \<and> is_success (fst (generate_report gen_r now_r (Some k)
          (snd (answer_turns k 1 turns (snd (start_assessment k t0 st0))))))
    \<and> sessions_get (snd (generate_report gen_r now_r (Some k)
          (snd (answer_turns k 1 turns (snd (start_assessment k t0 st0)))))) k = None"
proof -
  let ?st1 = "snd (start_assessment k t0 st0)"
  let ?st6 = "snd (answer_turns k 1 turns ?st1)"
  have "sessions_get ?st1 k \<noteq> None"
    by (simp add: start_assessment_def sessions_get_set)
  from answer_turns_keeps_session [OF assms(1) _ this assms(2), of 1]
  obtain s where rs: "\<forall>r \<in> set (fst (answer_turns k 1 turns ?st1)). is_success r"
    and s: "sessions_get ?st6 k = Some s"
    by auto
  obtain content where c: "gen_r (report_prompt s) 500 = Some content"
    using assms(3) by (meson option.exhaust)
  have "generate_report gen_r now_r (Some k) ?st6 =
      (Success (parse_report (trim content)),
       sessions_delete k (sessions_set k (s\<lparr>lastActivity := now_r\<rparr>) ?st6))"
    using generate_report_accepted [OF assms(1) s, of gen_r now_r] c by simp
  then show ?thesis
    using rs by (simp add: is_success_def sessions_get_delete)
qed

theorem full_run_succeeds_and_closes_session_witness:
  "is_success (fst (generate_report (\<lambda>p m. Some ''Chaos score: 73'') 60 (Some ''s1'')
      (snd (answer_turns ''s1'' 1
         [(\<lambda>p m. Some ''Q2?'', 10, ''A. Retail and E-commerce''),
          (\<lambda>p m. Some ''Q3?'', 20, ''B''),
          (\<lambda>p m. Some ''Q4?'', 30, ''C''),
          (\<lambda>p m. Some ''Q5?'', 40, ''D''),
          (\<lambda>p m. Some ''Q6?'', 50, ''A'')]
         (snd (start_assessment ''s1'' 0 []))))))
   \<and> sessions_get (snd (generate_report (\<lambda>p m. Some ''Chaos score: 73'') 60 (Some ''s1'')
      (snd (answer_turns ''s1'' 1
         [(\<lambda>p m. Some ''Q2?'', 10, ''A. Retail and E-commerce''),
          (\<lambda>p m. Some ''Q3?'', 20, ''B''),
          (\<lambda>p m. Some ''Q4?'', 30, ''C''),
          (\<lambda>p m. Some ''Q5?'', 40, ''D''),
          (\<lambda>p m. Some ''Q6?'', 50, ''A'')]
         (snd (start_assessment ''s1'' 0 [])))))) ''s1'' = None"
proof -
  let ?turns = "[(\<lambda>p m. Some ''Q2?'', 10, ''A. Retail and E-commerce''),
          (\<lambda>p m. Some ''Q3?'', 20, ''B''),
          (\<lambda>p m. Some ''Q4?'', 30, ''C''),
          (\<lambda>p m. Some ''Q5?'', 40, ''D''),
          (\<lambda>p m. Some ''Q6?'', 50, ''A'')] :: (generator \<times> int \<times> string) list"
  have k: "''s1'' \<noteq> []" by simp
  have turns: "\<forall>(gen, now, a) \<in> set ?turns. a \<noteq> [] \<and> (\<forall>p. gen p 200 \<noteq> None)"
    by simp
  have g: "\<forall>p. (\<lambda>p m. Some ''Chaos score: 73'') p (500::nat) \<noteq> (None :: string option)"
    by simp
  from full_run_succeeds_and_closes_session [OF k turns g, of 0 "[]" 60] show ?thesis
    by simp
qed

subsection \<open>The score of a report\<close>

lemma score_parse_report: "score (parse_report t) = parse_score t"
  by (simp add: parse_report_def)

lemma ci_prefix_append:
  "map to_upper m = map to_upper p \<Longrightarrow> ci_prefix p (m @ r)"
proof (induction p arbitrary: m)
  case Nil
  show ?case by simp
next
  case (Cons c p)
  then obtain d m' where m: "m = d # m'" by (cases m) auto
  from Cons show ?case by (simp add: m)
qed

lemma score_at_iff:
  "score_at s \<longleftrightarrow> ci_prefix ''Chaos score: '' s \<and> takeWhile is_digit (drop 13 s) \<noteq> []"
  by (cases "drop 13 s") (auto simp: score_at_def)

lemma score_at_nonempty: "score_at s \<Longrightarrow> s \<noteq> []"
  by (auto simp: score_at_def)

lemma score_match_leftmost:
  assumes "\<forall>j<length pre. \<not> score_at (drop j (pre @ s))" "score_at s"
  shows "score_match (pre @ s) = Some (takeWhile is_digit (drop 13 s))"
  using assms
proof (induction pre)
  case Nil
  then obtain c cs where s: "s = c # cs" using score_at_nonempty by (cases s) auto
  from Nil(2) show ?case
    unfolding s append_Nil score_match.simps score_at_iff [symmetric] by simp
next
  case (Cons p pre)
  from Cons.prems(1) have first: "\<not> score_at (p # pre @ s)" by fastforce
  have "\<forall>j<length pre. \<not> score_at (drop j (pre @ s))"
  proof (intro allI impI)
    fix j assume "j < length pre"
    with Cons.prems(1) have "\<not> score_at (drop (Suc j) ((p # pre) @ s))"
      by (metis Suc_less_eq length_Cons)
    then show "\<not> score_at (drop j (pre @ s))" by simp
  qed
  from Cons.IH [OF this Cons.prems(2)] first show ?case
    unfolding append_Cons score_match.simps score_at_iff [symmetric] by simp
qed

lemma score_match_none:
  assumes "\<forall>j\<le>length t. \<not> score_at (drop j t)"
  shows "score_match t = None"
  using assms
proof (induction t)
  case Nil
  show ?case by simp
next
  case (Cons c t)
  from Cons.prems have first: "\<not> score_at (c # t)" by fastforce
  have "\<forall>j\<le>length t. \<not> score_at (drop j t)"
  proof (intro allI impI)
    fix j assume "j \<le> length t"
    with Cons.prems have "\<not> score_at (drop (Suc j) (c # t))"
      by (metis Suc_le_mono length_Cons)
    then show "\<not> score_at (drop j t)" by simp
  qed
  from Cons.IH [OF this] first show ?case
    unfolding score_match.simps score_at_iff [symmetric] by simp
qed

lemma score_match_digits: "score_match t = Some ds \<Longrightarrow> \<forall>d\<in>set ds. is_digit d"
proof (induction t)
  case Nil
  then show ?case by simp
next
  case (Cons c t)
  then show ?case
    by (auto split: if_splits dest: set_takeWhileD)
qed

text \<open>The digits of a number, read back, give the number.\<close>

lemma digits_value_snoc: "digits_value (ds @ [d]) = 10 * digits_value ds + digit_val d"
  by (simp add: digits_value_def)

lemma digit_val_nth: "n < 10 \<Longrightarrow> digit_val (''0123456789'' ! n) = n"
proof -
  assume "n < 10"
  then have "n \<in> {0, 1, 2, 3, 4, 5, 6, 7, 8, 9}" by auto
  then show ?thesis by (auto simp: digit_val_def)
qed

lemma digits_value_nat_digits: "digits_value (nat_digits n) = n"
proof (induction n rule: nat_digits.induct)
  case (1 n)
  show ?case
  proof (cases "n < 10")
    case True
    then show ?thesis
      by (subst nat_digits.simps) (simp add: digits_value_def digit_val_nth)
  next
    case False
    with 1 have IH: "digits_value (nat_digits (n div 10)) = n div 10" by simp
    have "n mod 10 < 10" by simp
    then have "digit_val (''0123456789'' ! (n mod 10)) = n mod 10"
      by (rule digit_val_nth)
    then show ?thesis
      using False IH by (subst nat_digits.simps) (simp add: digits_value_snoc)
  qed
qed

lemma parseInt_nonneg: "parseInt ds = Finite i \<Longrightarrow> 0 \<le> i"
  by (auto simp: parseInt_def Let_def split: if_splits)

lemma digits_value_250: "digits_value ''250'' = 250"
  by (simp add: digits_value_def digit_val_def)

lemma digits_value_250_small: "digits_value ''250'' < 2 ^ 53"
  unfolding digits_value_250 by simp

lemma score_match_250: "score_match ''Chaos score: 250'' = Some ''250''"
  by (simp add: to_upper_def is_digit_def)

text \<open>
  Claim C6, as the code has it. The score of the report is read from the leftmost place
  of the text where "Chaos score: " (in any case) is followed by a digit: it is what
  \<open>parseInt\<close> makes of the digits that follow there, up to the first character that is
  not a digit. That is the number the digits write when it is below \<open>2^53\<close>, the
  nearest double beyond, and \<open>Infinity\<close> from \<open>2^1024\<close>. The score is 0 when the text has no such
  place. It is never negative, and nothing bounds it from above: the code does not clamp
  it to 100. A text holding "Chaos score: 73" at its leftmost match has score 73.
\<close>

theorem score_is_number_of_first_match:
  "(\<forall>pre m ds rest.
       t = pre @ m @ ds @ rest \<and> map to_upper m = map to_upper ''Chaos score: '' \<and>
       ds \<noteq> [] \<and> (\<forall>d\<in>set ds. is_digit d) \<and> (rest = [] \<or> \<not> is_digit (hd rest)) \<and>
       (\<forall>j<length pre. \<not> score_at (drop j t))
       \<longrightarrow> score (parse_report t) = parseInt ds
         \<and> (digits_value ds < 2 ^ 53 \<longrightarrow> score (parse_report t) = Finite (int (digits_value ds)))
         \<and> (2 ^ 1024 \<le> digits_value ds \<longrightarrow> score (parse_report t) = Infinity))
   \<and> ((\<forall>j\<le>length t. \<not> score_at (drop j t)) \<longrightarrow> score (parse_report t) = Finite 0)
   \<and> (\<forall>i. score (parse_report t) = Finite i \<longrightarrow> 0 \<le> i)
   \<and> digits_value (nat_digits n) = n
   \<and> (\<forall>pre rest.
         (rest = [] \<or> \<not> is_digit (hd rest)) \<and>
         (\<forall>j<length pre. \<not> score_at (drop j (pre @ ''Chaos score: 73'' @ rest)))
         \<longrightarrow> score (parse_report (pre @ ''Chaos score: 73'' @ rest)) = Finite 73)"
proof -
  have first: "score (parse_report (pre @ m @ ds @ rest)) = parseInt ds"
    if m: "map to_upper m = map to_upper ''Chaos score: ''"
      and ds: "ds \<noteq> []" "\<forall>d\<in>set ds. is_digit d"
      and rest: "rest = [] \<or> \<not> is_digit (hd rest)"
      and left: "\<forall>j<length pre. \<not> score_at (drop j (pre @ m @ ds @ rest))"
    for pre m ds rest
  proof -
    have len: "length m = 13"
      using arg_cong [OF m, of length] by simp
    have digits: "takeWhile is_digit (ds @ rest) = ds"
      using ds(2) rest by (cases rest) (auto simp: takeWhile_append)
    have at: "score_at (m @ ds @ rest)"
      unfolding score_at_iff using ci_prefix_append [OF m] ds(1) by (simp add: len digits)
    from score_match_leftmost [OF left at] show ?thesis
      by (simp add: parse_report_def parse_score_def len digits)
  qed
  have exact: "score (parse_report (pre @ m @ ds @ rest)) = Finite (int (digits_value ds))"
    if "map to_upper m = map to_upper ''Chaos score: ''"
      "ds \<noteq> []" "\<forall>d\<in>set ds. is_digit d" "rest = [] \<or> \<not> is_digit (hd rest)"
      "\<forall>j<length pre. \<not> score_at (drop j (pre @ m @ ds @ rest))"
      "digits_value ds < 2 ^ 53"
    for pre m ds rest
    using first [OF that(1-5)] parseInt_exact [OF that(6)] by simp
  have none: "score (parse_report t) = Finite 0" if "\<forall>j\<le>length t. \<not> score_at (drop j t)"
    using score_match_none [OF that] by (simp add: parse_report_def parse_score_def)
  have nonneg: "0 \<le> i" if "score (parse_report t) = Finite i" for i
    using that
    by (cases "score_match t")
      (auto simp: parse_report_def parse_score_def dest: parseInt_nonneg)
  have value73: "digits_value ''73'' = 73"
    by (simp add: digits_value_def digit_val_def)
  have seventy_three: "score (parse_report (pre @ ''Chaos score: 73'' @ rest)) = Finite 73"
    if "rest = [] \<or> \<not> is_digit (hd rest)"
      "\<forall>j<length pre. \<not> score_at (drop j (pre @ ''Chaos score: 73'' @ rest))"
    for pre rest
    using exact [of "''Chaos score: ''" "''73''" rest pre] that
    by (simp add: is_digit_def value73)
  show ?thesis
  proof (intro conjI allI impI)
    fix pre m ds rest
    assume h: "t = pre @ m @ ds @ rest \<and> map to_upper m = map to_upper ''Chaos score: '' \<and>
       ds \<noteq> [] \<and> (\<forall>d\<in>set ds. is_digit d) \<and> (rest = [] \<or> \<not> is_digit (hd rest)) \<and>
       (\<forall>j<length pre. \<not> score_at (drop j t))"
    then show "score (parse_report t) = parseInt ds"
      using first [of m ds rest pre] by blast
    assume "digits_value ds < 2 ^ 53"
    with h show "score (parse_report t) = Finite (int (digits_value ds))"
      using exact [of m ds rest pre] by blast
  next
    fix pre m ds rest
    assume h: "t = pre @ m @ ds @ rest \<and> map to_upper m = map to_upper ''Chaos score: '' \<and>
       ds \<noteq> [] \<and> (\<forall>d\<in>set ds. is_digit d) \<and> (rest = [] \<or> \<not> is_digit (hd rest)) \<and>
       (\<forall>j<length pre. \<not> score_at (drop j t))"
      and big: "2 ^ 1024 \<le> digits_value ds"
    from h have "score (parse_report t) = parseInt ds"
      using first [of m ds rest pre] by blast
    then show "score (parse_report t) = Infinity"
      by (simp only: parseInt_overflow [OF big])
  next
    assume "\<forall>j\<le>length t. \<not> score_at (drop j t)"
    then show "score (parse_report t) = Finite 0" by (rule none)
  next
    fix i assume "score (parse_report t) = Finite i"
    then show "0 \<le> i" by (rule nonneg)
  next
    show "digits_value (nat_digits n) = n" by (rule digits_value_nat_digits)
  next
    fix pre rest
    assume "(rest = [] \<or> \<not> is_digit (hd rest)) \<and>
         (\<forall>j<length pre. \<not> score_at (drop j (pre @ ''Chaos score: 73'' @ rest)))"
    then show "score (parse_report (pre @ ''Chaos score: 73'' @ rest)) = Finite 73"
      using seventy_three [of rest pre] by blast
  qed
qed

theorem score_is_number_of_first_match_witness:
  "score (parse_report ''My chaos SCORE: 250/100'') = Finite 250
   \<and> score (parse_report ''No score.'') = Finite 0"
proof -
  let ?t = "''My chaos SCORE: 250/100''"
  have left: "\<forall>j<length ''My ''. \<not> score_at (drop j ?t)"
  proof (intro allI impI)
    fix j :: nat assume "j < length ''My ''"
    then have "j \<in> {0, 1, 2}" by auto
    then show "\<not> score_at (drop j ?t)"
      by (auto simp: score_at_def to_upper_def)
  qed
  have none: "\<forall>j\<le>length ''No score.''. \<not> score_at (drop j ''No score.'')"
  proof (intro allI impI)
    fix j :: nat assume "j \<le> length ''No score.''"
    then have "j \<in> {0, 1, 2, 3, 4, 5, 6, 7, 8, 9}" by auto
    then show "\<not> score_at (drop j ''No score.'')"
      by (auto simp: score_at_def to_upper_def)
  qed
  have parts: "?t = ''My '' @ ''chaos SCORE: '' @ ''250'' @ ''/100''"
    by simp
  have ci: "map to_upper ''chaos SCORE: '' = map to_upper ''Chaos score: ''"
    by (simp add: to_upper_def)
  have digits: "''250'' \<noteq> [] \<and> (\<forall>d\<in>set ''250''. is_digit d) \<and>
      (''/100'' = [] \<or> \<not> is_digit (hd ''/100''))"
    by (simp add: is_digit_def)
  have hyp: "?t = ''My '' @ ''chaos SCORE: '' @ ''250'' @ ''/100'' \<and>
      map to_upper ''chaos SCORE: '' = map to_upper ''Chaos score: '' \<and>
      ''250'' \<noteq> [] \<and> (\<forall>d\<in>set ''250''. is_digit d) \<and>
      (''/100'' = [] \<or> \<not> is_digit (hd ''/100'')) \<and>
      (\<forall>j<length ''My ''. \<not> score_at (drop j ?t))"
    using parts ci digits left by blast
  have "score (parse_report ?t) = Finite (int (digits_value ''250''))"
    using score_is_number_of_first_match
        [of ?t 0, THEN conjunct1, rule_format, OF hyp, THEN conjunct2, THEN conjunct1, rule_format,
         OF digits_value_250_small] .
  then have one: "score (parse_report ?t) = Finite 250"
    by (simp only: digits_value_250) simp
  have two: "score (parse_report ''No score.'') = Finite 0"
    using score_is_number_of_first_match
        [of "''No score.''" 0, THEN conjunct2, THEN conjunct1] none
    by blast
  from one two show ?thesis by blast
qed

text \<open>
  The claim as the spec words it ("always an int in [0,100]") fails: the score is whatever
  number the digits write.
\<close>

theorem score_in_range_counterexample:
  "score (parse_report ''Chaos score: 250'') = Finite 250 \<and> \<not> (250 :: int) \<le> 100"
proof -
  have "parseInt ''250'' = Finite 250"
    using parseInt_exact [OF digits_value_250_small] by (simp only: digits_value_250) simp
  then show ?thesis
    unfolding score_parse_report parse_score_def score_match_250 by simp
qed

subsection \<open>Lines and the question block\<close>

lemma split_lines_nonempty: "split_lines t \<noteq> []"
  by (induction t) (auto split: list.splits)

lemma join_split_lines: "join ''\<newline>'' (split_lines t) = t"
proof (induction t)
  case Nil
  show ?case by simp
next
  case (Cons c t)
  obtain l ls where ls: "split_lines t = l # ls"
    using split_lines_nonempty [of t] by (cases "split_lines t") auto
  from Cons show ?case
    by (cases ls) (auto simp: ls)
qed

lemma split_lines_no_newline: "l \<in> set (split_lines t) \<Longrightarrow> CHR 0x0A \<notin> set l"
proof (induction t arbitrary: l)
  case Nil
  then show ?case by simp
next
  case (Cons c t)
  obtain l' ls where ls: "split_lines t = l' # ls"
    using split_lines_nonempty [of t] by (cases "split_lines t") auto
  from Cons.prems Cons.IH [of l'] Cons.IH [of l] show ?case
    by (auto simp: ls split: if_splits)
qed

lemma split_lines_line: "CHR 0x0A \<notin> set l \<Longrightarrow> split_lines l = [l]"
  by (induction l) auto

lemma split_lines_append:
  "CHR 0x0A \<notin> set l \<Longrightarrow> split_lines (l @ CHR 0x0A # rest) = l # split_lines rest"
  by (induction l) auto

lemma trim_empty_iff: "trim l = [] \<longleftrightarrow> (\<forall>c\<in>set l. is_space c)"
proof -
  have "trim l = [] \<longleftrightarrow> dropWhile is_space l = []"
  proof
    assume "trim l = []"
    then have "dropWhile is_space (rev (dropWhile is_space l)) = []"
      by (simp add: trim_def)
    then have all: "\<forall>c\<in>set (dropWhile is_space l). is_space c"
      unfolding dropWhile_eq_Nil_conv by simp
    show "dropWhile is_space l = []"
    proof (rule ccontr)
      assume ne: "dropWhile is_space l \<noteq> []"
      then have "\<not> is_space (hd (dropWhile is_space l))" by (rule hd_dropWhile)
      with all ne show False by simp
    qed
  next
    assume e: "dropWhile is_space l = []"
    show "trim l = []" unfolding trim_def e by simp
  qed
  also have "\<dots> \<longleftrightarrow> (\<forall>c\<in>set l. is_space c)" by (rule dropWhile_eq_Nil_conv)
  finally show ?thesis .
qed

lemma non_blank_iff: "non_blank l \<longleftrightarrow> (\<exists>c\<in>set l. \<not> is_space c)"
  by (simp add: non_blank_def trim_empty_iff)

lemma option_pattern_intro:
  "c \<in> set ''ABCD'' \<Longrightarrow> option_pattern (pre @ c # ''. '' @ post)"
proof (induction pre)
  case Nil
  then show ?case by simp
next
  case (Cons p pre)
  show ?case
  proof (cases pre)
    case Nil
    with Cons show ?thesis by simp
  next
    case (Cons p' pre')
    note outer = this
    show ?thesis
    proof (cases pre')
      case Nil
      with Cons.IH [OF Cons.prems] outer show ?thesis by simp
    next
      case (Cons p'' pre'')
      with Cons.IH [OF Cons.prems] outer show ?thesis by simp
    qed
  qed
qed

lemma option_pattern_elim:
  "option_pattern l \<Longrightarrow> \<exists>pre c post. l = pre @ c # ''. '' @ post \<and> c \<in> set ''ABCD''"
proof (induction l rule: option_pattern.induct)
  case (1 a b c rest)
  show ?case
  proof (cases "a \<in> set ''ABCD'' \<and> b = CHR ''.'' \<and> c = CHR '' ''")
    case True
    then have "a # b # c # rest = [] @ a # ''. '' @ rest \<and> a \<in> set ''ABCD''" by simp
    then show ?thesis by blast
  next
    case False
    with 1 obtain pre x post where "b # c # rest = pre @ x # ''. '' @ post" "x \<in> set ''ABCD''"
      by auto
    then have "a # b # c # rest = (a # pre) @ x # ''. '' @ post \<and> x \<in> set ''ABCD''" by simp
    then show ?thesis by blast
  qed
qed simp_all

lemma option_pattern_iff:
  "option_pattern l \<longleftrightarrow> (\<exists>pre c post. l = pre @ c # ''. '' @ post \<and> c \<in> set ''ABCD'')"
  using option_pattern_elim option_pattern_intro by blast

lemma option_pattern_non_blank: "option_pattern l \<Longrightarrow> non_blank l"
proof -
  assume "option_pattern l"
  then obtain pre c post where l: "l = pre @ c # ''. '' @ post" and c: "c \<in> set ''ABCD''"
    using option_pattern_elim by blast
  from c have "\<not> is_space c" by (auto simp: is_space_def)
  then show ?thesis unfolding non_blank_iff l by auto
qed

lemma filter_skip_blank:
  "\<forall>b\<in>set pre. \<not> non_blank b \<Longrightarrow> non_blank l \<Longrightarrow>
     filter non_blank (pre @ l # post) = l # filter non_blank post"
  by (induction pre) auto

lemma split_lines_join:
  "ls \<noteq> [] \<Longrightarrow> \<forall>l\<in>set ls. CHR 0x0A \<notin> set l \<Longrightarrow> split_lines (join ''\<newline>'' ls) = ls"
proof (induction "''\<newline>''" ls rule: join.induct)
  case 1
  then show ?case by simp
next
  case (2 x)
  then show ?case by (simp add: split_lines_line)
next
  case (3 x y ys)
  then show ?case by (simp add: split_lines_append)
qed

lemma spec_option_line_pattern: "spec_option_line l \<Longrightarrow> option_pattern l"
  by (auto simp: spec_option_line_def split: list.splits)

lemma parse_block:
  assumes "non_blank q" "CHR 0x0A \<notin> set q"
    and "\<forall>l\<in>set block. non_blank l \<and> CHR 0x0A \<notin> set l" "length block \<le> 4"
  shows "parse_question (join ''\<newline>'' (q # block)) = q"
    and "parse_options (join ''\<newline>'' (q # block)) = filter option_pattern block"
proof -
  have "split_lines (join ''\<newline>'' (q # block)) = q # block"
    using assms(2,3) by (intro split_lines_join) auto
  moreover have "filter non_blank (q # block) = q # block"
    using assms(1,3) by simp
  ultimately have lines: "non_blank_lines (join ''\<newline>'' (q # block)) = q # block"
    by (simp add: non_blank_lines_def)
  show "parse_question (join ''\<newline>'' (q # block)) = q"
    by (simp add: parse_question_def lines)
  show "parse_options (join ''\<newline>'' (q # block)) = filter option_pattern block"
    using assms(4) by (simp add: parse_options_def lines)
qed

text \<open>
  Claim C5, as the code has it. The lines of the text are its pieces between line breaks.
  The question is the first non-blank line (the empty string when every line is blank).
  The options are, of the next four non-blank lines, those in which the pattern occurs,
  in their order: at most four, and a line without the pattern is dropped. The pattern
  occurs in a line when the line holds, anywhere, one of the letters A to D followed by
  a full stop and a space: the regular expression is not anchored to the start of the
  line, and its \<open>.*\<close> accepts any rest. So every line of the form letter, full stop,
  space, text is kept, and so is a line that only mentions such a letter further in. A
  question line followed by a block of at most four non-blank lines gives the lines of
  the block in which the pattern occurs; when these are exactly three, it gives these
  three; and when the pattern occurs in the block only at the start of lines, it gives
  exactly the lines of the form letter, full stop, space, text.
\<close>

theorem question_extraction_rule:
  "(\<forall>pre l post.
       split_lines t = pre @ l # post \<and> (\<forall>b\<in>set pre. \<not> non_blank b) \<and> non_blank l
       \<longrightarrow> parse_question t = l
         \<and> parse_options t = filter option_pattern (take 4 (filter non_blank post)))
   \<and> ((\<forall>l\<in>set (split_lines t). \<not> non_blank l) \<longrightarrow> parse_question t = [] \<and> parse_options t = [])
   \<and> length (parse_options t) \<le> 4
   \<and> join ''\<newline>'' (split_lines t) = t
   \<and> (\<forall>l\<in>set (split_lines t). CHR 0x0A \<notin> set l)
   \<and> (non_blank x \<longleftrightarrow> (\<exists>c\<in>set x. \<not> is_space c))
   \<and> (option_pattern x \<longleftrightarrow> (\<exists>pre c post. x = pre @ c # ''. '' @ post \<and> c \<in> set ''ABCD''))
   \<and> (spec_option_line x \<longrightarrow> option_pattern x)
   \<and> (\<forall>q block.
         non_blank q \<and> CHR 0x0A \<notin> set q \<and>
         (\<forall>l\<in>set block. non_blank l \<and> CHR 0x0A \<notin> set l) \<and> length block \<le> 4
         \<longrightarrow> parse_question (join ''\<newline>'' (q # block)) = q
           \<and> parse_options (join ''\<newline>'' (q # block)) = filter option_pattern block
           \<and> (\<forall>a b c. filter option_pattern block = [a, b, c]
                 \<longrightarrow> parse_options (join ''\<newline>'' (q # block)) = [a, b, c])
           \<and> ((\<forall>l\<in>set block. option_pattern l \<longrightarrow> spec_option_line l)
                 \<longrightarrow> parse_options (join ''\<newline>'' (q # block)) = filter spec_option_line block))"
proof -
  have block: "parse_question t = l
      \<and> parse_options t = filter option_pattern (take 4 (filter non_blank post))"
    if "split_lines t = pre @ l # post" "\<forall>b\<in>set pre. \<not> non_blank b" "non_blank l"
    for pre l post
    using that filter_skip_blank [OF that(2,3), of post]
    by (simp add: parse_question_def parse_options_def non_blank_lines_def)
  have blank: "parse_question t = [] \<and> parse_options t = []"
    if "\<forall>l\<in>set (split_lines t). \<not> non_blank l"
  proof -
    from that have "filter non_blank (split_lines t) = []" by (simp add: filter_empty_conv)
    then show ?thesis
      by (simp add: parse_question_def parse_options_def non_blank_lines_def)
  qed
  have most: "length (parse_options t) \<le> 4"
  proof -
    have "length (parse_options t) \<le> length (take 4 (drop 1 (non_blank_lines t)))"
      unfolding parse_options_def by (rule length_filter_le)
    then show ?thesis by simp
  qed
  have built: "parse_question (join ''\<newline>'' (q # block)) = q
      \<and> parse_options (join ''\<newline>'' (q # block)) = filter option_pattern block
      \<and> (\<forall>a b c. filter option_pattern block = [a, b, c]
            \<longrightarrow> parse_options (join ''\<newline>'' (q # block)) = [a, b, c])
      \<and> ((\<forall>l\<in>set block. option_pattern l \<longrightarrow> spec_option_line l)
            \<longrightarrow> parse_options (join ''\<newline>'' (q # block)) = filter spec_option_line block)"
    if h: "non_blank q \<and> CHR 0x0A \<notin> set q \<and>
         (\<forall>l\<in>set block. non_blank l \<and> CHR 0x0A \<notin> set l) \<and> length block \<le> 4"
    for q block
  proof -
    from h have q: "non_blank q" "CHR 0x0A \<notin> set q"
      and b: "\<forall>l\<in>set block. non_blank l \<and> CHR 0x0A \<notin> set l" "length block \<le> 4"
      by blast+
    note pq = parse_block(1) [OF q b] and po = parse_block(2) [OF q b]
    have same: "filter option_pattern block = filter spec_option_line block"
      if "\<forall>l\<in>set block. option_pattern l \<longrightarrow> spec_option_line l"
      using that by (intro filter_cong) (auto dest: spec_option_line_pattern)
    show ?thesis
      using pq po same by simp
  qed
  show ?thesis
  proof (intro conjI)
    show "\<forall>pre l post.
       split_lines t = pre @ l # post \<and> (\<forall>b\<in>set pre. \<not> non_blank b) \<and> non_blank l
       \<longrightarrow> parse_question t = l
         \<and> parse_options t = filter option_pattern (take 4 (filter non_blank post))"
      using block by blast
    show "(\<forall>l\<in>set (split_lines t). \<not> non_blank l) \<longrightarrow> parse_question t = [] \<and> parse_options t = []"
      using blank by blast
    show "length (parse_options t) \<le> 4" by (rule most)
    show "join ''\<newline>'' (split_lines t) = t" by (rule join_split_lines)
    show "\<forall>l\<in>set (split_lines t). CHR 0x0A \<notin> set l"
      using split_lines_no_newline by blast
    show "non_blank x \<longleftrightarrow> (\<exists>c\<in>set x. \<not> is_space c)" by (rule non_blank_iff)
    show "option_pattern x \<longleftrightarrow> (\<exists>pre c post. x = pre @ c # ''. '' @ post \<and> c \<in> set ''ABCD'')"
      by (rule option_pattern_iff)
    show "spec_option_line x \<longrightarrow> option_pattern x"
      using spec_option_line_pattern by blast
    show "\<forall>q block.
         non_blank q \<and> CHR 0x0A \<notin> set q \<and>
         (\<forall>l\<in>set block. non_blank l \<and> CHR 0x0A \<notin> set l) \<and> length block \<le> 4
         \<longrightarrow> parse_question (join ''\<newline>'' (q # block)) = q
           \<and> parse_options (join ''\<newline>'' (q # block)) = filter option_pattern block
           \<and> (\<forall>a b c. filter option_pattern block = [a, b, c]
                 \<longrightarrow> parse_options (join ''\<newline>'' (q # block)) = [a, b, c])
           \<and> ((\<forall>l\<in>set block. option_pattern l \<longrightarrow> spec_option_line l)
                 \<longrightarrow> parse_options (join ''\<newline>'' (q # block)) = filter spec_option_line block)"
      using built by (intro allI impI)
  qed
qed

theorem question_extraction_rule_witness:
  "parse_question ''How do you plan work?\<newline>\<newline>A. Weekly plan\<newline>B) Some notes\<newline>C. Ad hoc\<newline>D. Not at all\<newline>E. Unsure''
     = ''How do you plan work?''
   \<and> parse_options ''How do you plan work?\<newline>\<newline>A. Weekly plan\<newline>B) Some notes\<newline>C. Ad hoc\<newline>D. Not at all\<newline>E. Unsure''
     = [''A. Weekly plan'', ''C. Ad hoc'', ''D. Not at all'']
   \<and> parse_options ''Q?\<newline>A. x\<newline>B. y\<newline>C. z'' = [''A. x'', ''B. y'', ''C. z'']"
proof -
  let ?t = "''How do you plan work?\<newline>\<newline>A. Weekly plan\<newline>B) Some notes\<newline>C. Ad hoc\<newline>D. Not at all\<newline>E. Unsure''"
  let ?post = "[[], ''A. Weekly plan'', ''B) Some notes'', ''C. Ad hoc'', ''D. Not at all'', ''E. Unsure'']"
  have lines: "split_lines ?t = [] @ ''How do you plan work?'' # ?post"
    by simp
  have q: "non_blank ''How do you plan work?''"
    by (simp add: non_blank_iff is_space_def)
  have nb: "filter non_blank ?post
      = [''A. Weekly plan'', ''B) Some notes'', ''C. Ad hoc'', ''D. Not at all'', ''E. Unsure'']"
    by (simp add: non_blank_iff is_space_def)
  have opts: "filter option_pattern
      (take 4 [''A. Weekly plan'', ''B) Some notes'', ''C. Ad hoc'', ''D. Not at all'', ''E. Unsure''])
      = [''A. Weekly plan'', ''C. Ad hoc'', ''D. Not at all'']"
    by simp
  have hyp: "split_lines ?t = [] @ ''How do you plan work?'' # ?post \<and>
      (\<forall>b\<in>set []. \<not> non_blank b) \<and> non_blank ''How do you plan work?''"
    using lines q by simp
  have first: "parse_question ?t = ''How do you plan work?''
      \<and> parse_options ?t = [''A. Weekly plan'', ''C. Ad hoc'', ''D. Not at all'']"
    using question_extraction_rule [of ?t "[]", THEN conjunct1, rule_format, OF hyp]
    unfolding nb opts .
  have hyp3: "non_blank ''Q?'' \<and> CHR 0x0A \<notin> set ''Q?'' \<and>
      (\<forall>l\<in>set [''A. x'', ''B. y'', ''C. z'']. non_blank l \<and> CHR 0x0A \<notin> set l) \<and>
      length [''A. x'', ''B. y'', ''C. z''] \<le> 4"
    by (simp add: non_blank_iff is_space_def)
  have f3: "filter option_pattern [''A. x'', ''B. y'', ''C. z''] = [''A. x'', ''B. y'', ''C. z'']"
    by simp
  have "parse_options (join ''\<newline>'' [''Q?'', ''A. x'', ''B. y'', ''C. z'']) = [''A. x'', ''B. y'', ''C. z'']"
    using question_extraction_rule
        [of "[]" "[]", THEN conjunct2, THEN conjunct2, THEN conjunct2, THEN conjunct2,
         THEN conjunct2, THEN conjunct2, THEN conjunct2, THEN conjunct2, rule_format,
         OF hyp3, THEN conjunct2, THEN conjunct2, THEN conjunct1, rule_format, OF f3] .
  then have three: "parse_options ''Q?\<newline>A. x\<newline>B. y\<newline>C. z'' = [''A. x'', ''B. y'', ''C. z'']"
    by simp
  from first three show ?thesis by simp
qed

text \<open>
  The claim as the spec words it fails on a block of three lines of the form letter, full
  stop, space, text and a fourth line that mentions "D. " further in: the three lines are
  all the lines of that form, and four options are returned.
\<close>

theorem question_extraction_counterexample:
  "filter spec_option_line [''A. x'', ''B. y'', ''C. z'', ''See plan D. for details'']
     = [''A. x'', ''B. y'', ''C. z'']
   \<and> parse_options ''Q?\<newline>A. x\<newline>B. y\<newline>C. z\<newline>See plan D. for details''
     = [''A. x'', ''B. y'', ''C. z'', ''See plan D. for details'']"
proof -
  have lines: "split_lines ''Q?\<newline>A. x\<newline>B. y\<newline>C. z\<newline>See plan D. for details''
      = [''Q?'', ''A. x'', ''B. y'', ''C. z'', ''See plan D. for details'']"
    by simp
  have nb: "filter non_blank [''Q?'', ''A. x'', ''B. y'', ''C. z'', ''See plan D. for details'']
      = [''Q?'', ''A. x'', ''B. y'', ''C. z'', ''See plan D. for details'']"
    by (simp add: non_blank_iff is_space_def)
  have kept: "filter option_pattern [''A. x'', ''B. y'', ''C. z'', ''See plan D. for details'']
      = [''A. x'', ''B. y'', ''C. z'', ''See plan D. for details'']"
    by simp
  have spec: "filter spec_option_line [''A. x'', ''B. y'', ''C. z'', ''See plan D. for details'']
      = [''A. x'', ''B. y'', ''C. z'']"
    by (simp add: spec_option_line_def)
  have "parse_options ''Q?\<newline>A. x\<newline>B. y\<newline>C. z\<newline>See plan D. for details''
      = [''A. x'', ''B. y'', ''C. z'', ''See plan D. for details'']"
    unfolding parse_options_def non_blank_lines_def lines nb using kept by simp
  with spec show ?thesis by blast
qed

end
